theory Spec2Isabelle
  imports Main "HOL-Library.Word" "HOL-Library.Sublist" "HOL-Library.List_Lexorder"
begin

section \<open>The ban registry of banman.cpp\<close>

text \<open>
  A shallow embedding of \<^verbatim>\<open>BanMan\<close> (src/src/banman.cpp). The object's fields are a
  record; what the methods do to the outside (reading the clock, writing the ban database,
  calling the user interface) is a second record, the world, passed through every method
  and returned updated. The methods are run one at a time: \<^verbatim>\<open>LOCK(m_cs_banned)\<close> is a
  recursive mutex and has no effect on a single thread, so it is not modelled. Log output
  (\<^verbatim>\<open>LogPrint\<close>, and the \<^verbatim>\<open>GetTimeMillis\<close> readings that only feed it) is left out.
\<close>

subsection \<open>Data\<close>

text \<open>
  \<^verbatim>\<open>int64_t\<close>: a 64-bit word, read as two's complement by the signed comparisons
  \<open><s\<close> and \<open>\<le>s\<close>. C++ leaves the overflow of a signed addition undefined; the model
  gives it the result of the machine, \<open>+\<close> that wraps around.
\<close>

type_synonym int64_t = "64 word"

text \<open>
  Modelled from the spec: the ban record. \<^verbatim>\<open>CBanEntry\<close> is declared in a header that is
  not part of the source at hand; the spec gives it the two timestamps \<open>created_at\<close> and
  \<open>ban_until\<close>, which banman.cpp reads and writes as \<^verbatim>\<open>nCreateTime\<close> (set by the
  constructor \<^verbatim>\<open>CBanEntry(GetTime())\<close>) and \<^verbatim>\<open>nBanUntil\<close>.
\<close>

record CBanEntry =
  nCreateTime :: int64_t
  nBanUntil :: int64_t

text \<open>
  \<^verbatim>\<open>banmap_t\<close> is a \<^verbatim>\<open>std::map\<close> from \<^verbatim>\<open>CSubNet\<close> to \<^verbatim>\<open>CBanEntry\<close>: its entries, in the order
  in which the map is iterated (ascending keys). The key type \<^verbatim>\<open>CSubNet\<close> is declared
  outside the source at hand: it is a type parameter \<open>'k\<close> with a linear order (the map's
  \<^verbatim>\<open>operator<\<close>), and its containment test \<^verbatim>\<open>a.IsSuperset(b)\<close> is a parameter
  \<open>IsSuperset a b\<close> of every method that calls it.
\<close>

type_synonym 'k banmap_t = "('k \<times> CBanEntry) list"

definition banmap_ok :: "('k::linorder) banmap_t \<Rightarrow> bool" where
  "banmap_ok m = sorted_wrt (<) (map fst m)"

text \<open>\<^verbatim>\<open>m.erase(key)\<close>: the number of entries removed, and the map without them.\<close>

definition banmap_erase :: "'k \<Rightarrow> 'k banmap_t \<Rightarrow> nat \<times> 'k banmap_t" where
  "banmap_erase key m =
     (length (filter (\<lambda>e. fst e = key) m), filter (\<lambda>e. fst e \<noteq> key) m)"

text \<open>\<^verbatim>\<open>m[key] = entry\<close>: overwrite the entry of the key, or insert it at its place.\<close>

fun banmap_assign :: "('k::linorder) \<Rightarrow> CBanEntry \<Rightarrow> 'k banmap_t \<Rightarrow> 'k banmap_t" where
  "banmap_assign key entry [] = [(key, entry)]"
| "banmap_assign key entry (e # m) =
     (if key < fst e then (key, entry) # e # m
      else if key = fst e then (key, entry) # m
      else e # banmap_assign key entry m)"

text \<open>
  The object: \<^verbatim>\<open>m_client_interface\<close> is a pointer that is only tested for null and
  called, so the field holds whether it is non-null. \<^verbatim>\<open>m_ban_db\<close> lives in the world.
  \<^verbatim>\<open>m_discouraged\<close> is touched by \<^verbatim>\<open>Discourage\<close> and \<^verbatim>\<open>IsDiscouraged\<close> only, which
  read and write nothing else, and is left out.
\<close>

record 'k BanMan =
  m_banned :: "'k banmap_t"
  m_is_dirty :: bool
  m_client_interface :: bool
  m_default_ban_time :: int64_t

text \<open>
  The world: \<open>clock\<close> gives the value of each successive call of \<^verbatim>\<open>GetTime()\<close> and
  \<open>ticks\<close> counts the calls made so far; \<open>disk_ok\<close> tells for each successive call of
  \<^verbatim>\<open>m_ban_db.Write\<close> whether it succeeds and \<open>writes\<close> counts them; \<open>events\<close> is the
  log of the calls made to the outside, oldest first.
\<close>

datatype 'k event = BannedListChanged | DbWrite "'k banmap_t" bool

record 'k world =
  clock :: "nat \<Rightarrow> int64_t"
  ticks :: nat
  disk_ok :: "nat \<Rightarrow> bool"
  writes :: nat
  events :: "'k event list"

definition GetTime :: "'k world \<Rightarrow> int64_t \<times> 'k world" where
  "GetTime w = (clock w (ticks w), w\<lparr>ticks := Suc (ticks w)\<rparr>)"

definition ui_BannedListChanged :: "'k world \<Rightarrow> 'k world" where
  "ui_BannedListChanged w = w\<lparr>events := events w @ [BannedListChanged]\<rparr>"

definition db_Write :: "'k banmap_t \<Rightarrow> 'k world \<Rightarrow> bool \<times> 'k world" where
  "db_Write banmap w =
     (disk_ok w (writes w),
      w\<lparr>writes := Suc (writes w),
        events := events w @ [DbWrite banmap (disk_ok w (writes w))]\<rparr>)"

subsection \<open>SweepBanned, GetBanned, SetBanned, DumpBanlist\<close>

text \<open>
  The \<^verbatim>\<open>while\<close> loop of \<^verbatim>\<open>SweepBanned\<close>: the entries still to visit, and the state
  \<open>(kept, dirty, notify_ui)\<close> of the entries already passed over, \<^verbatim>\<open>m_is_dirty\<close> and
  \<^verbatim>\<open>notify_ui\<close>.
\<close>

fun SweepBanned_loop ::
  "int64_t \<Rightarrow> 'k banmap_t \<Rightarrow> 'k banmap_t \<times> bool \<times> bool \<Rightarrow> 'k banmap_t \<times> bool \<times> bool" where
  "SweepBanned_loop now [] st = st"
| "SweepBanned_loop now (e # it) (kept, dirty, notify_ui) =
     (if nBanUntil (snd e) <s now
      then SweepBanned_loop now it (kept, True, True)
      else SweepBanned_loop now it (kept @ [e], dirty, notify_ui))"

definition SweepBanned :: "'k BanMan \<Rightarrow> 'k world \<Rightarrow> 'k BanMan \<times> 'k world" where
  "SweepBanned b w =
     (let (now, w1) = GetTime w;
          (banned, dirty, notify_ui) = SweepBanned_loop now (m_banned b) ([], m_is_dirty b, False)
      in (b\<lparr>m_banned := banned, m_is_dirty := dirty\<rparr>,
          if notify_ui \<and> m_client_interface b then ui_BannedListChanged w1 else w1))"

definition GetBanned :: "'k BanMan \<Rightarrow> 'k world \<Rightarrow> 'k banmap_t \<times> 'k BanMan \<times> 'k world" where
  "GetBanned b w = (let (b1, w1) = SweepBanned b w in (m_banned b1, b1, w1))"

definition SetBanned :: "'k banmap_t \<Rightarrow> 'k BanMan \<Rightarrow> 'k BanMan" where
  "SetBanned banmap b = b\<lparr>m_banned := banmap, m_is_dirty := True\<rparr>"

definition DumpBanlist :: "'k BanMan \<Rightarrow> 'k world \<Rightarrow> 'k BanMan \<times> 'k world" where
  "DumpBanlist b w =
     (let (b1, w1) = SweepBanned b w in
      if \<not> m_is_dirty b1 then (b1, w1)
      else
        let (banmap, b2, w2) = GetBanned b1 w1;
            (ok, w3) = db_Write banmap w2
        in (if ok then b2\<lparr>m_is_dirty := False\<rparr> else b2, w3))"

subsection \<open>ClearBanned, HasBannedAddresses, Ban, Unban\<close>

definition ClearBanned :: "'k BanMan \<Rightarrow> 'k world \<Rightarrow> 'k BanMan \<times> 'k world" where
  "ClearBanned b w =
     (let (b1, w1) = DumpBanlist (b\<lparr>m_banned := [], m_is_dirty := True\<rparr>) w
      in (b1, if m_client_interface b1 then ui_BannedListChanged w1 else w1))"

fun HasBannedAddresses_loop ::
  "('k \<Rightarrow> 'k \<Rightarrow> bool) \<Rightarrow> 'k \<Rightarrow> int64_t \<Rightarrow> 'k banmap_t \<Rightarrow> bool" where
  "HasBannedAddresses_loop IsSuperset sub_net current_time [] = False"
| "HasBannedAddresses_loop IsSuperset sub_net current_time (e # it) =
     (if (IsSuperset (fst e) sub_net \<or> IsSuperset sub_net (fst e)) \<and>
         current_time <s nBanUntil (snd e)
      then True
      else HasBannedAddresses_loop IsSuperset sub_net current_time it)"

definition HasBannedAddresses ::
  "('k \<Rightarrow> 'k \<Rightarrow> bool) \<Rightarrow> 'k \<Rightarrow> 'k BanMan \<Rightarrow> 'k world \<Rightarrow> bool \<times> 'k world" where
  "HasBannedAddresses IsSuperset sub_net b w =
     (let (current_time, w1) = GetTime w
      in (HasBannedAddresses_loop IsSuperset sub_net current_time (m_banned b), w1))"

text \<open>
  Lines 105 to 113 of \<^verbatim>\<open>Ban\<close>: the new entry. \<^verbatim>\<open>GetTime()\<close> is called once for
  \<^verbatim>\<open>nCreateTime\<close>, and once more for \<^verbatim>\<open>nBanUntil\<close> unless the offset counts from the epoch.
\<close>

definition Ban_new_entry ::
  "int64_t \<Rightarrow> bool \<Rightarrow> 'k BanMan \<Rightarrow> 'k world \<Rightarrow> CBanEntry \<times> 'k world" where
  "Ban_new_entry ban_time_offset since_unix_epoch b w =
     (let (t, w1) = GetTime w;
          normalized_ban_time_offset =
            (if ban_time_offset \<le>s 0 then m_default_ban_time b else ban_time_offset);
          normalized_since_unix_epoch =
            (if ban_time_offset \<le>s 0 then False else since_unix_epoch);
          (base, w2) = (if normalized_since_unix_epoch then (0, w1) else GetTime w1)
      in (\<lparr>nCreateTime = t, nBanUntil = base + normalized_ban_time_offset\<rparr>, w2))"

text \<open>
  The first \<^verbatim>\<open>for\<close> loop of \<^verbatim>\<open>Ban\<close>: \<open>None\<close> is its \<^verbatim>\<open>return false\<close>, otherwise
  it ends with the vector \<^verbatim>\<open>entries_to_delete\<close>.
\<close>

fun Ban_scan ::
  "('k \<Rightarrow> 'k \<Rightarrow> bool) \<Rightarrow> 'k \<Rightarrow> CBanEntry \<Rightarrow> 'k banmap_t \<Rightarrow> 'k list \<Rightarrow> 'k list option" where
  "Ban_scan IsSuperset sub_net new_ban_entry [] entries_to_delete = Some entries_to_delete"
| "Ban_scan IsSuperset sub_net new_ban_entry (e # it) entries_to_delete =
     (if IsSuperset sub_net (fst e) \<and> nBanUntil (snd e) <s nBanUntil new_ban_entry
      then Ban_scan IsSuperset sub_net new_ban_entry it (entries_to_delete @ [fst e])
      else if IsSuperset (fst e) sub_net \<and> nBanUntil new_ban_entry \<le>s nBanUntil (snd e)
      then None
      else Ban_scan IsSuperset sub_net new_ban_entry it entries_to_delete)"

text \<open>The second \<^verbatim>\<open>for\<close> loop of \<^verbatim>\<open>Ban\<close>: erase every collected key.\<close>

fun Ban_erase_all :: "'k list \<Rightarrow> 'k banmap_t \<Rightarrow> 'k banmap_t" where
  "Ban_erase_all [] m = m"
| "Ban_erase_all (key # entries_to_delete) m =
     Ban_erase_all entries_to_delete (snd (banmap_erase key m))"

text \<open>
  The locked block of \<^verbatim>\<open>Ban\<close> (lines 115 to 137): \<open>None\<close> when the scan returns false,
  otherwise the object after the insertion.
\<close>

definition Ban_locked ::
  "('k \<Rightarrow> 'k \<Rightarrow> bool) \<Rightarrow> ('k::linorder) \<Rightarrow> CBanEntry \<Rightarrow> 'k BanMan \<Rightarrow> 'k BanMan option" where
  "Ban_locked IsSuperset sub_net new_ban_entry b =
     (case Ban_scan IsSuperset sub_net new_ban_entry (m_banned b) [] of
        None \<Rightarrow> None
      | Some entries_to_delete \<Rightarrow>
          Some (b\<lparr>m_banned :=
                    banmap_assign sub_net new_ban_entry (Ban_erase_all entries_to_delete (m_banned b)),
                  m_is_dirty := True\<rparr>))"

definition Ban ::
  "('k \<Rightarrow> 'k \<Rightarrow> bool) \<Rightarrow> ('k::linorder) \<Rightarrow> int64_t \<Rightarrow> bool \<Rightarrow> 'k BanMan \<Rightarrow> 'k world
     \<Rightarrow> bool \<times> 'k BanMan \<times> 'k world" where
  "Ban IsSuperset sub_net ban_time_offset since_unix_epoch b w =
     (let (new_ban_entry, w1) = Ban_new_entry ban_time_offset since_unix_epoch b w in
      case Ban_locked IsSuperset sub_net new_ban_entry b of
        None \<Rightarrow> (False, b, w1)
      | Some b1 \<Rightarrow>
          let w2 = (if m_client_interface b1 then ui_BannedListChanged w1 else w1);
              (b3, w3) = DumpBanlist b1 w2
          in (True, b3, w3))"

definition Unban :: "'k \<Rightarrow> 'k BanMan \<Rightarrow> 'k world \<Rightarrow> bool \<times> 'k BanMan \<times> 'k world" where
  "Unban sub_net b w =
     (let (n, banned) = banmap_erase sub_net (m_banned b) in
      if n = 0 then (False, b, w)
      else
        let b1 = b\<lparr>m_banned := banned, m_is_dirty := True\<rparr>;
            w1 = (if m_client_interface b1 then ui_BannedListChanged w else w);
            (b2, w2) = DumpBanlist b1 w1
        in (True, b2, w2))"

subsection \<open>Concrete subnets for examples\<close>

text \<open>
  A subnet as the list of the leading octets it fixes: \<open>[10, 0]\<close> is 10.0.0.0/16 and
  \<open>[10, 0, 0, 5]\<close> is the host 10.0.0.5. The broader net is a prefix of the narrower one.
\<close>

definition octets_IsSuperset :: "nat list \<Rightarrow> nat list \<Rightarrow> bool" where
  "octets_IsSuperset a b = prefix a b"

definition world0 :: "int64_t \<Rightarrow> bool \<Rightarrow> (nat list) world" where
  "world0 now ok = \<lparr>clock = (\<lambda>_. now), ticks = 0, disk_ok = (\<lambda>_. ok), writes = 0, events = []\<rparr>"

definition banman0 :: "(nat list) banmap_t \<Rightarrow> (nat list) BanMan" where
  "banman0 m = \<lparr>m_banned = m, m_is_dirty = False, m_client_interface = True,
                m_default_ban_time = 86400\<rparr>"

text \<open>An entry is expired at a clock reading that is strictly later than its \<open>nBanUntil\<close>.\<close>

abbreviation expired_at :: "int64_t \<Rightarrow> 'k \<times> CBanEntry \<Rightarrow> bool" where
  "expired_at now e \<equiv> nBanUntil (snd e) <s now"

text \<open>
  The entries a sweep at a clock reading keeps, and the call of the interface it makes:
  one when it removes an entry and an interface is installed, none otherwise.
\<close>

abbreviation unexpired :: "int64_t \<Rightarrow> 'k banmap_t \<Rightarrow> 'k banmap_t" where
  "unexpired now m \<equiv> filter (\<lambda>e. \<not> expired_at now e) m"


text \<open>
  A world in which the first write of the ban database fails and every later one succeeds,
  and two registries: one holding 10.0.0.0/24 alone, one holding it under a longer ban of
  10.0.0.0/8. Both maps are in key order.
\<close>

definition world1 :: "int64_t \<Rightarrow> (nat list) world" where
  "world1 now = \<lparr>clock = (\<lambda>_. now), ticks = 0, disk_ok = (\<lambda>n. 0 < n), writes = 0, events = []\<rparr>"

definition scenario3 :: "(nat list) BanMan" where
  "scenario3 = banman0 [([10, 0, 0], \<lparr>nCreateTime = 0, nBanUntil = 3600\<rparr>)]"

definition covered :: "(nat list) BanMan" where
  "covered = banman0 [([10], \<lparr>nCreateTime = 0, nBanUntil = 10000\<rparr>),
                      ([10, 0, 0], \<lparr>nCreateTime = 0, nBanUntil = 3600\<rparr>)]"

section \<open>What the loops and the map operations compute\<close>

lemma SweepBanned_loop_eq:
  "SweepBanned_loop now m (kept, dirty, notify_ui) =
     (kept @ filter (\<lambda>e. \<not> expired_at now e) m,
      dirty \<or> (\<exists>e\<in>set m. expired_at now e),
      notify_ui \<or> (\<exists>e\<in>set m. expired_at now e))"
  by (induction m arbitrary: kept dirty notify_ui) auto

lemma HasBannedAddresses_loop_eq:
  "HasBannedAddresses_loop IsSuperset s now m =
     (\<exists>e\<in>set m. (IsSuperset (fst e) s \<or> IsSuperset s (fst e)) \<and> now <s nBanUntil (snd e))"
  by (induction m) auto

lemma Ban_scan_eq:
  "Ban_scan IsSuperset s n m acc =
     (if \<exists>e\<in>set m. IsSuperset (fst e) s \<and> nBanUntil n \<le>s nBanUntil (snd e) then None
      else Some (acc @ map fst (filter (\<lambda>e. IsSuperset s (fst e) \<and> nBanUntil (snd e) <s nBanUntil n) m)))"
  by (induction m arbitrary: acc) (auto simp: signed.not_less)

lemma Ban_erase_all_eq:
  "Ban_erase_all dels m = filter (\<lambda>e. fst e \<notin> set dels) m"
  by (induction dels arbitrary: m) (auto simp: banmap_erase_def intro: filter_cong)

lemma HasBannedAddresses_filter:
  assumes "\<And>e. e \<in> set m \<Longrightarrow> now <s nBanUntil (snd e) \<Longrightarrow> keep e"
  shows "HasBannedAddresses_loop IsSuperset sub_net now (filter keep m) =
         HasBannedAddresses_loop IsSuperset sub_net now m"
  using assms by (induction m) auto

lemma map_of_banmap_assign:
  "map_of (banmap_assign k v m) = (map_of m)(k \<mapsto> v)"
  by (induction m) (auto simp: fun_eq_iff)

lemma keys_banmap_assign:
  "fst ` set (banmap_assign k v m) = insert k (fst ` set m)"
  by (induction m) auto

lemma set_banmap_assign:
  "set (banmap_assign k v m) \<subseteq> insert (k, v) (set m)"
  by (induction m) auto

section \<open>The methods in closed form\<close>

lemma SweepBanned_eq:
  "SweepBanned b w =
     (b\<lparr>m_banned := filter (\<lambda>e. \<not> expired_at (clock w (ticks w)) e) (m_banned b),
        m_is_dirty := m_is_dirty b \<or> (\<exists>e\<in>set (m_banned b). expired_at (clock w (ticks w)) e)\<rparr>,
      if (\<exists>e\<in>set (m_banned b). expired_at (clock w (ticks w)) e) \<and> m_client_interface b
      then ui_BannedListChanged (w\<lparr>ticks := Suc (ticks w)\<rparr>) else w\<lparr>ticks := Suc (ticks w)\<rparr>)"
  by (simp add: SweepBanned_def GetTime_def SweepBanned_loop_eq)

lemma SweepBanned_clean:
  "\<not> m_is_dirty (fst (SweepBanned b w)) \<Longrightarrow> SweepBanned b w = (b, w\<lparr>ticks := Suc (ticks w)\<rparr>)"
  by (auto simp: SweepBanned_eq filter_id_conv)

lemma SweepBanned_world:
  "ticks (snd (SweepBanned b w)) = Suc (ticks w) \<and> clock (snd (SweepBanned b w)) = clock w \<and>
   writes (snd (SweepBanned b w)) = writes w \<and> disk_ok (snd (SweepBanned b w)) = disk_ok w \<and>
   (\<exists>ns. events (snd (SweepBanned b w)) = events w @ ns \<and> set ns \<subseteq> {BannedListChanged} \<and>
      (m_banned (fst (SweepBanned b w)) = m_banned b \<longrightarrow> ns = []))"
  by (auto simp: SweepBanned_eq ui_BannedListChanged_def filter_id_conv)

lemma SweepBanned_fields:
  "m_client_interface (fst (SweepBanned b w)) = m_client_interface b \<and>
   m_default_ban_time (fst (SweepBanned b w)) = m_default_ban_time b \<and>
   (m_is_dirty b \<longrightarrow> m_is_dirty (fst (SweepBanned b w)))"
  by (simp add: SweepBanned_eq)

lemma DumpBanlist_clean:
  "\<not> m_is_dirty (fst (SweepBanned b w)) \<Longrightarrow> DumpBanlist b w = SweepBanned b w"
  by (simp add: DumpBanlist_def split_beta)

lemma DumpBanlist_dirty:
  assumes "m_is_dirty (fst (SweepBanned b w))"
  shows "DumpBanlist b w =
    ((fst (snd (GetBanned (fst (SweepBanned b w)) (snd (SweepBanned b w)))))
        \<lparr>m_is_dirty := \<not> disk_ok w (writes w)\<rparr>,
     (snd (snd (GetBanned (fst (SweepBanned b w)) (snd (SweepBanned b w)))))
        \<lparr>writes := Suc (writes w),
         events := events (snd (snd (GetBanned (fst (SweepBanned b w)) (snd (SweepBanned b w))))) @
           [DbWrite (fst (GetBanned (fst (SweepBanned b w)) (snd (SweepBanned b w))))
              (disk_ok w (writes w))]\<rparr>)"
proof -
  obtain b1 w1 where s1: "SweepBanned b w = (b1, w1)" by (cases "SweepBanned b w")
  obtain b2 w2 where s2: "SweepBanned b1 w1 = (b2, w2)" by (cases "SweepBanned b1 w1")
  from assms s1 have d1: "m_is_dirty b1" by simp
  from SweepBanned_world[of b w] s1 have w1: "writes w1 = writes w" "disk_ok w1 = disk_ok w" by simp_all
  from SweepBanned_world[of b1 w1] s2 w1 have w2: "writes w2 = writes w" "disk_ok w2 = disk_ok w" by simp_all
  from SweepBanned_fields[of b1 w1] s2 d1 have d2: "m_is_dirty b2" by simp
  have "b2 = b2\<lparr>m_is_dirty := True\<rparr>" using d2 by simp
  then show ?thesis
    using s1 s2 d1 w2
    by (auto simp: DumpBanlist_def GetBanned_def db_Write_def)
qed


lemma DumpBanlist_dirty_facts:
  assumes "m_is_dirty b"
  shows "m_banned (fst (DumpBanlist b w)) =
           filter (\<lambda>e. \<not> expired_at (clock w (Suc (ticks w))) e)
             (filter (\<lambda>e. \<not> expired_at (clock w (ticks w)) e) (m_banned b))"
    and "m_is_dirty (fst (DumpBanlist b w)) \<longleftrightarrow> \<not> disk_ok w (writes w)"
    and "m_client_interface (fst (DumpBanlist b w)) = m_client_interface b"
    and "writes (snd (DumpBanlist b w)) = Suc (writes w)"
    and "disk_ok (snd (DumpBanlist b w)) = disk_ok w"
    and "\<exists>ns. set ns \<subseteq> {BannedListChanged} \<and>
           events (snd (DumpBanlist b w)) =
             events w @ ns @ [DbWrite (m_banned (fst (DumpBanlist b w))) (disk_ok w (writes w))]"
proof -
  have d1: "m_is_dirty (fst (SweepBanned b w))"
    using assms by (simp add: SweepBanned_eq)
  note eq = DumpBanlist_dirty [OF d1]
  show "m_banned (fst (DumpBanlist b w)) =
           filter (\<lambda>e. \<not> expired_at (clock w (Suc (ticks w))) e)
             (filter (\<lambda>e. \<not> expired_at (clock w (ticks w)) e) (m_banned b))"
    unfolding eq by (simp add: GetBanned_def split_beta SweepBanned_eq ui_BannedListChanged_def)
  show "m_is_dirty (fst (DumpBanlist b w)) \<longleftrightarrow> \<not> disk_ok w (writes w)"
    unfolding eq by simp
  show "m_client_interface (fst (DumpBanlist b w)) = m_client_interface b"
    unfolding eq by (simp add: GetBanned_def split_beta SweepBanned_eq)
  show "writes (snd (DumpBanlist b w)) = Suc (writes w)"
    unfolding eq by simp
  show "disk_ok (snd (DumpBanlist b w)) = disk_ok w"
    unfolding eq by (simp add: GetBanned_def split_beta SweepBanned_world)
  obtain n1 where n1: "events (snd (SweepBanned b w)) = events w @ n1" "set n1 \<subseteq> {BannedListChanged}"
    using SweepBanned_world [of b w] by blast
  obtain n2 where n2: "events (snd (SweepBanned (fst (SweepBanned b w)) (snd (SweepBanned b w)))) =
      events (snd (SweepBanned b w)) @ n2" "set n2 \<subseteq> {BannedListChanged}"
    using SweepBanned_world [of "fst (SweepBanned b w)" "snd (SweepBanned b w)"] by blast
  have "events (snd (DumpBanlist b w)) =
      events w @ (n1 @ n2) @ [DbWrite (m_banned (fst (DumpBanlist b w))) (disk_ok w (writes w))]"
    unfolding eq using n1(1) n2(1) by (simp add: GetBanned_def split_beta)
  moreover have "set (n1 @ n2) \<subseteq> {BannedListChanged}"
    using n1(2) n2(2) by simp
  ultimately show "\<exists>ns. set ns \<subseteq> {BannedListChanged} \<and>
           events (snd (DumpBanlist b w)) =
             events w @ ns @ [DbWrite (m_banned (fst (DumpBanlist b w))) (disk_ok w (writes w))]"
    by blast
qed

lemma Ban_new_entry_eq:
  "Ban_new_entry ban_time_offset since_unix_epoch b w =
     (\<lparr>nCreateTime = clock w (ticks w),
       nBanUntil = (if ban_time_offset \<le>s 0 then clock w (Suc (ticks w)) + m_default_ban_time b
                    else (if since_unix_epoch then 0 else clock w (Suc (ticks w))) + ban_time_offset)\<rparr>,
      w\<lparr>ticks := (if \<not> ban_time_offset \<le>s 0 \<and> since_unix_epoch then Suc (ticks w)
                     else Suc (Suc (ticks w)))\<rparr>)"
  by (simp add: Ban_new_entry_def GetTime_def)

lemma Ban_new_entry_world:
  "events (snd (Ban_new_entry ban_time_offset since_unix_epoch b w)) = events w \<and>
   writes (snd (Ban_new_entry ban_time_offset since_unix_epoch b w)) = writes w \<and>
   disk_ok (snd (Ban_new_entry ban_time_offset since_unix_epoch b w)) = disk_ok w \<and>
   clock (snd (Ban_new_entry ban_time_offset since_unix_epoch b w)) = clock w"
  by (simp add: Ban_new_entry_eq)

lemma Ban_locked_None:
  "Ban_locked IsSuperset s n b = None \<longleftrightarrow>
     (\<exists>e\<in>set (m_banned b). IsSuperset (fst e) s \<and> nBanUntil n \<le>s nBanUntil (snd e))"
  by (simp add: Ban_locked_def Ban_scan_eq)

lemma Ban_locked_Some:
  assumes "Ban_locked IsSuperset A n b = Some b1"
  shows "m_is_dirty b1" and "m_client_interface b1 = m_client_interface b"
    and "map_of (m_banned b1) A = Some n"
    and "set (m_banned b1) \<subseteq> insert (A, n) (set (m_banned b))"
    and "\<And>e. e \<in> set (m_banned b) \<Longrightarrow> IsSuperset A (fst e) \<Longrightarrow> nBanUntil (snd e) <s nBanUntil n \<Longrightarrow>
           e \<notin> set (m_banned b1) \<and> (fst e \<noteq> A \<longrightarrow> fst e \<notin> fst ` set (m_banned b1))"
proof -
  define dels where
    "dels = map fst (filter (\<lambda>e. IsSuperset A (fst e) \<and> nBanUntil (snd e) <s nBanUntil n) (m_banned b))"
  define rest where "rest = filter (\<lambda>e. fst e \<notin> set dels) (m_banned b)"
  from assms have b1: "b1 = b\<lparr>m_banned := banmap_assign A n rest, m_is_dirty := True\<rparr>"
    unfolding rest_def dels_def
    by (auto simp: Ban_locked_def Ban_scan_eq Ban_erase_all_eq split: if_splits)
  show "m_is_dirty b1" and "m_client_interface b1 = m_client_interface b"
    by (simp_all add: b1)
  show "map_of (m_banned b1) A = Some n"
    by (simp add: b1 map_of_banmap_assign)
  have sub: "set (m_banned b1) \<subseteq> insert (A, n) (set rest)"
    using set_banmap_assign [of A n rest] by (simp add: b1)
  then show "set (m_banned b1) \<subseteq> insert (A, n) (set (m_banned b))"
    by (auto simp: rest_def)
  fix e
  assume e: "e \<in> set (m_banned b)" "IsSuperset A (fst e)" "nBanUntil (snd e) <s nBanUntil n"
  then have marked: "fst e \<in> set dels"
    unfolding dels_def by force
  then have rest: "\<forall>x\<in>set rest. fst x \<noteq> fst e"
    by (auto simp: rest_def)
  have "e \<noteq> (A, n)"
    using e(3) by auto
  with rest sub have gone: "e \<notin> set (m_banned b1)"
    by auto
  have "fst ` set (m_banned b1) = insert A (fst ` set rest)"
    by (simp add: b1 keys_banmap_assign)
  with rest have "fst e \<noteq> A \<longrightarrow> fst e \<notin> fst ` set (m_banned b1)"
    by auto
  with gone show "e \<notin> set (m_banned b1) \<and> (fst e \<noteq> A \<longrightarrow> fst e \<notin> fst ` set (m_banned b1))"
    by simp
qed

lemma Ban_accepted:
  assumes "Ban_locked IsSuperset sub_net (fst (Ban_new_entry ban_time_offset since_unix_epoch b w)) b = Some b1"
  shows "Ban IsSuperset sub_net ban_time_offset since_unix_epoch b w =
     (True, DumpBanlist b1
        (if m_client_interface b
         then ui_BannedListChanged (snd (Ban_new_entry ban_time_offset since_unix_epoch b w))
         else snd (Ban_new_entry ban_time_offset since_unix_epoch b w)))"
  using assms Ban_locked_Some(2) [OF assms]
  by (simp add: Ban_def split_beta)

lemma Ban_rejected:
  assumes "Ban_locked IsSuperset sub_net (fst (Ban_new_entry ban_time_offset since_unix_epoch b w)) b = None"
  shows "Ban IsSuperset sub_net ban_time_offset since_unix_epoch b w =
     (False, b, snd (Ban_new_entry ban_time_offset since_unix_epoch b w))"
  using assms by (simp add: Ban_def split_beta)

lemma ClearBanned_eq:
  "ClearBanned b w =
     (b\<lparr>m_banned := [], m_is_dirty := \<not> disk_ok w (writes w)\<rparr>,
      w\<lparr>ticks := Suc (Suc (ticks w)), writes := Suc (writes w),
        events := events w @ [DbWrite [] (disk_ok w (writes w))] @
                  (if m_client_interface b then [BannedListChanged] else [])\<rparr>)"
  by (simp add: ClearBanned_def DumpBanlist_def GetBanned_def SweepBanned_eq db_Write_def
      ui_BannedListChanged_def)

lemma Unban_eq:
  "Unban sub_net b w =
     (if fst (banmap_erase sub_net (m_banned b)) = 0 then (False, b, w)
      else (True, DumpBanlist (b\<lparr>m_banned := snd (banmap_erase sub_net (m_banned b)), m_is_dirty := True\<rparr>)
                    (if m_client_interface b then ui_BannedListChanged w else w)))"
  by (simp add: Unban_def split_beta)

lemma Ban_scenario3:
  "Ban octets_IsSuperset [10, 0] 7200 False scenario3 (world0 0 True) =
     (True, banman0 [([10, 0], \<lparr>nCreateTime = 0, nBanUntil = 7200\<rparr>)],
      \<lparr>clock = (\<lambda>_. 0), ticks = 4, disk_ok = (\<lambda>_. True), writes = 1,
        events = [BannedListChanged, DbWrite [([10, 0], \<lparr>nCreateTime = 0, nBanUntil = 7200\<rparr>)] True]\<rparr>)"
  by (simp add: Ban_def Ban_new_entry_eq Ban_locked_def DumpBanlist_def GetBanned_def SweepBanned_eq
      db_Write_def ui_BannedListChanged_def scenario3_def banman0_def world0_def octets_IsSuperset_def
      banmap_erase_def word_sle_eq word_sless_alt)

section \<open>The banned map stays in key order\<close>

lemma banmap_ok_assign:
  "banmap_ok m \<Longrightarrow> banmap_ok (banmap_assign k v m)"
proof (induction m)
  case Nil
  then show ?case by (simp add: banmap_ok_def)
next
  case (Cons e m)
  then have ok: "banmap_ok (banmap_assign k v m)" and lt: "\<forall>x\<in>set m. fst e < fst x"
    by (auto simp: banmap_ok_def)
  have "fst e < fst x" if "x \<in> set (banmap_assign k v m)" "fst e < k" for x
    using that lt set_banmap_assign[of k v m] by auto
  with Cons.prems ok show ?case
    by (auto simp: banmap_ok_def)
qed

lemma banmap_ok_filter: "banmap_ok m \<Longrightarrow> banmap_ok (filter keep m)"
  unfolding banmap_ok_def by (induction m) auto

lemma banmap_ok_examples:
  "banmap_ok (m_banned scenario3)" "banmap_ok (m_banned covered)"
  by (simp_all add: banmap_ok_def scenario3_def covered_def banman0_def)

lemma banmap_ok_SweepBanned:
  "banmap_ok (m_banned b) \<Longrightarrow> banmap_ok (m_banned (fst (SweepBanned b w)))"
  by (simp add: SweepBanned_eq banmap_ok_filter)

lemma banmap_ok_Ban_locked:
  "banmap_ok (m_banned b) \<Longrightarrow> Ban_locked IsSuperset sub_net n b = Some b1 \<Longrightarrow>
     banmap_ok (m_banned b1)"
  by (auto simp: Ban_locked_def Ban_erase_all_eq banmap_ok_filter banmap_ok_assign
      split: option.splits)

lemma banmap_ok_Unban:
  "banmap_ok (m_banned b) \<Longrightarrow> banmap_ok (snd (banmap_erase sub_net (m_banned b)))"
  by (simp add: banmap_erase_def banmap_ok_filter)

section \<open>The flush in full, and the one entry of a key\<close>


lemma set_banmap_assign_ok:
  "banmap_ok m \<Longrightarrow> set (banmap_assign k v m) = insert (k, v) {x \<in> set m. fst x \<noteq> k}"
proof (induction m)
  case Nil
  then show ?case by simp
next
  case (Cons e m)
  then have ok: "banmap_ok m" and lt: "\<forall>x\<in>set m. fst e < fst x"
    by (auto simp: banmap_ok_def)
  show ?case
  proof (cases "k < fst e")
    case True
    with lt have "\<forall>x\<in>set (e # m). fst x \<noteq> k" by auto
    then have "{x \<in> set (e # m). fst x \<noteq> k} = set (e # m)" by blast
    with True show ?thesis by simp
  next
    case False
    show ?thesis
    proof (cases "k = fst e")
      case True
      with lt have "{x \<in> set (e # m). fst x \<noteq> k} = set m" by auto
      with True show ?thesis by simp
    next
      case ne: False
      with False Cons.IH [OF ok] show ?thesis by auto
    qed
  qed
qed

lemma Ban_locked_Some_map:
  assumes "Ban_locked IsSuperset A n b = Some b1"
  shows "\<exists>rest. m_banned b1 = banmap_assign A n rest \<and> set rest \<subseteq> set (m_banned b) \<and>
           (banmap_ok (m_banned b) \<longrightarrow> banmap_ok rest)"
  using assms
  by (auto simp: Ban_locked_def Ban_scan_eq Ban_erase_all_eq banmap_ok_filter split: if_splits)

lemma Ban_locked_Some_unique:
  assumes "Ban_locked IsSuperset A n b = Some b1" and "banmap_ok (m_banned b)"
    and "(A, e) \<in> set (m_banned b1)"
  shows "e = n"
proof -
  from Ban_locked_Some_map [OF assms(1)] assms(2)
  obtain rest where "m_banned b1 = banmap_assign A n rest" and "banmap_ok rest"
    by blast
  with assms(3) set_banmap_assign_ok [of rest A n] show ?thesis
    by auto
qed

section \<open>Ban: a covered request is rejected\<close>

text \<open>
  Claim C1. Let an entry with key \<open>A\<close> be in the banned map, \<open>A\<close> a superset of \<open>B\<close>, and
  the expiry of the entry at least the expiry computed for the request. Then \<open>Ban\<close> of
  \<open>B\<close> returns false and hands back the very object it was given: the banned map, with every
  entry the scan had marked for deletion, and the dirty flag are unchanged. Outside the
  object only the clock has been read: nothing is written and the interface is not called.
\<close>

theorem ban_rejected_unchanged:
  assumes "(A, a) \<in> set (m_banned b)" and "IsSuperset A B"
    and "nBanUntil (fst (Ban_new_entry ban_time_offset since_unix_epoch b w)) \<le>s nBanUntil a"
  shows "Ban IsSuperset B ban_time_offset since_unix_epoch b w =
           (False, b, snd (Ban_new_entry ban_time_offset since_unix_epoch b w)) \<and>
         events (snd (Ban_new_entry ban_time_offset since_unix_epoch b w)) = events w \<and>
         writes (snd (Ban_new_entry ban_time_offset since_unix_epoch b w)) = writes w"
proof -
  obtain n w1 where nw: "Ban_new_entry ban_time_offset since_unix_epoch b w = (n, w1)"
    by (cases "Ban_new_entry ban_time_offset since_unix_epoch b w")
  from assms nw have "\<exists>e\<in>set (m_banned b). IsSuperset (fst e) B \<and> nBanUntil n \<le>s nBanUntil (snd e)"
    by force
  then have "Ban_locked IsSuperset B n b = None"
    by (simp add: Ban_locked_None)
  moreover from nw have "events w1 = events w \<and> writes w1 = writes w"
    by (auto simp: Ban_new_entry_def GetTime_def Let_def split: if_splits)
  ultimately show ?thesis
    using nw by (simp add: Ban_def)
qed

theorem ban_rejected_unchanged_witness:
  "([10, 0], \<lparr>nCreateTime = 0, nBanUntil = 7200\<rparr>)
     \<in> set (m_banned (banman0 [([10, 0], \<lparr>nCreateTime = 0, nBanUntil = 7200\<rparr>)])) \<and>
   octets_IsSuperset [10, 0] [10, 0, 0] \<and>
   nBanUntil (fst (Ban_new_entry 3600 False
       (banman0 [([10, 0], \<lparr>nCreateTime = 0, nBanUntil = 7200\<rparr>)]) (world0 0 True))) \<le>s 7200 \<and>
   fst (Ban octets_IsSuperset [10, 0, 0] 3600 False
       (banman0 [([10, 0], \<lparr>nCreateTime = 0, nBanUntil = 7200\<rparr>)]) (world0 0 True)) = False \<and>
   fst (snd (Ban octets_IsSuperset [10, 0, 0] 3600 False
       (banman0 [([10, 0], \<lparr>nCreateTime = 0, nBanUntil = 7200\<rparr>)]) (world0 0 True)))
     = banman0 [([10, 0], \<lparr>nCreateTime = 0, nBanUntil = 7200\<rparr>)]"
proof -
  have h1: "([10, 0], \<lparr>nCreateTime = 0, nBanUntil = 7200\<rparr>)
     \<in> set (m_banned (banman0 [([10, 0], \<lparr>nCreateTime = 0, nBanUntil = 7200\<rparr>)]))"
    by (simp add: banman0_def)
  have h2: "octets_IsSuperset [10, 0] [10, 0, 0]"
    by (simp add: octets_IsSuperset_def)
  have h3: "nBanUntil (fst (Ban_new_entry 3600 False
       (banman0 [([10, 0], \<lparr>nCreateTime = 0, nBanUntil = 7200\<rparr>)]) (world0 0 True)))
       \<le>s nBanUntil \<lparr>nCreateTime = 0, nBanUntil = 7200\<rparr>"
    by (simp add: Ban_new_entry_def GetTime_def world0_def banman0_def word_sle_eq)
  show ?thesis
    using h1 h2 h3 ban_rejected_unchanged [where IsSuperset = octets_IsSuperset, OF h1 h2 h3] by simp
qed

section \<open>Ban: a broader and longer ban replaces a narrower one\<close>

text \<open>
  Claim C2, as amended. Let \<open>(B, eb)\<close> be an entry of the banned map, \<open>A\<close> a superset of
  \<open>B\<close>, the expiry \<open>nBanUntil n\<close> computed for the request strictly later than that of
  \<open>eb\<close>, and let no entry whose subnet is a superset of \<open>A\<close> expire at or after
  \<open>nBanUntil n\<close> (such an entry makes \<open>Ban\<close> return false). Then \<open>Ban\<close> of \<open>A\<close> returns
  true. Its locked block sets the dirty flag, stores the new entry \<open>n\<close> under the exact key
  \<open>A\<close> and removes the entry of \<open>B\<close>. After the call, that is after the flush that ends it,
  the entry of \<open>B\<close> is still absent; the entry of \<open>A\<close> is in the map unless it was already
  expired at one of the two clock readings of the flush; and the dirty flag is set exactly
  when the write of the ban database failed.
\<close>

theorem ban_broader_replaces:
  assumes "(B, eb) \<in> set (m_banned b)" and "IsSuperset A B"
    and "Ban_new_entry ban_time_offset since_unix_epoch b w = (n, w1)"
    and "nBanUntil eb <s nBanUntil n"
    and "\<forall>e\<in>set (m_banned b). IsSuperset (fst e) A \<longrightarrow> nBanUntil (snd e) <s nBanUntil n"
    and "Ban IsSuperset A ban_time_offset since_unix_epoch b w = (r, b', w')"
  shows "r \<and>
     (\<exists>b1. Ban_locked IsSuperset A n b = Some b1 \<and> m_is_dirty b1 \<and>
        map_of (m_banned b1) A = Some n \<and>
        (B, eb) \<notin> set (m_banned b1) \<and> (A \<noteq> B \<longrightarrow> B \<notin> fst ` set (m_banned b1))) \<and>
     (B, eb) \<notin> set (m_banned b') \<and> (A \<noteq> B \<longrightarrow> B \<notin> fst ` set (m_banned b')) \<and>
     ((A, n) \<in> set (m_banned b') \<longleftrightarrow>
        \<not> nBanUntil n <s clock w1 (ticks w1) \<and> \<not> nBanUntil n <s clock w1 (Suc (ticks w1))) \<and>
     (m_is_dirty b' \<longleftrightarrow> \<not> disk_ok w (writes w))"
proof -
  have n: "fst (Ban_new_entry ban_time_offset since_unix_epoch b w) = n"
    and w1: "snd (Ban_new_entry ban_time_offset since_unix_epoch b w) = w1"
    using assms(3) by simp_all
  have "Ban_locked IsSuperset A n b \<noteq> None"
    using assms(5) by (auto simp: Ban_locked_None signed.not_le)
  then obtain b1 where b1: "Ban_locked IsSuperset A n b = Some b1"
    by blast
  note facts = Ban_locked_Some [OF b1]
  have gone: "(B, eb) \<notin> set (m_banned b1) \<and> (A \<noteq> B \<longrightarrow> B \<notin> fst ` set (m_banned b1))"
    using facts(5) [of "(B, eb)"] assms(1,2,4) by auto
  let ?w2 = "if m_client_interface b then ui_BannedListChanged w1 else w1"
  have w2: "clock ?w2 = clock w1" "ticks ?w2 = ticks w1" "disk_ok ?w2 = disk_ok w" "writes ?w2 = writes w"
    using Ban_new_entry_world [of ban_time_offset since_unix_epoch b w]
    by (simp_all add: w1 ui_BannedListChanged_def)
  have run: "Ban IsSuperset A ban_time_offset since_unix_epoch b w = (True, DumpBanlist b1 ?w2)"
    using Ban_accepted [of IsSuperset A ban_time_offset since_unix_epoch b w b1] b1
    by (simp add: n w1)
  with assms(6) have r: "r" and res: "DumpBanlist b1 ?w2 = (b', w')"
    by simp_all
  from res have b': "b' = fst (DumpBanlist b1 ?w2)"
    by simp
  have m': "m_banned b' =
      filter (\<lambda>e. \<not> expired_at (clock w1 (Suc (ticks w1))) e)
        (filter (\<lambda>e. \<not> expired_at (clock w1 (ticks w1)) e) (m_banned b1))"
    using DumpBanlist_dirty_facts(1) [OF facts(1), of ?w2] by (simp only: b' w2)
  have d': "m_is_dirty b' \<longleftrightarrow> \<not> disk_ok w (writes w)"
    using DumpBanlist_dirty_facts(2) [OF facts(1), of ?w2] by (simp only: b' w2)
  have sub: "set (m_banned b') \<subseteq> set (m_banned b1)"
    by (auto simp: m')
  with gone have gone': "(B, eb) \<notin> set (m_banned b') \<and> (A \<noteq> B \<longrightarrow> B \<notin> fst ` set (m_banned b'))"
    by auto
  have "(A, n) \<in> set (m_banned b1)"
    using facts(3) by (rule map_of_SomeD)
  then have kept: "(A, n) \<in> set (m_banned b') \<longleftrightarrow>
        \<not> nBanUntil n <s clock w1 (ticks w1) \<and> \<not> nBanUntil n <s clock w1 (Suc (ticks w1))"
    by (auto simp: m')
  from r b1 facts(1,3) gone gone' kept d' show ?thesis
    by blast
qed

text \<open>
  The claim as stated fails in three ways. With 10.0.0.0/8 banned until 10000 and
  10.0.0.0/24 until 3600, banning 10.0.0.0/16 until 7200 returns false and leaves the
  registry as it was, the entry of 10.0.0.0/24 included. With 10.0.0.0/24 alone, the same
  call returns true and the write succeeds, so the dirty flag is clear after the call. And
  at time 10000, banning 10.0.0.0/16 until the absolute time 7200 returns true, but the
  flush sweeps the new entry at once: the map is empty after the call.
\<close>

theorem ban_broader_replaces_counterexample:
  "([10, 0, 0], \<lparr>nCreateTime = 0, nBanUntil = 3600\<rparr>) \<in> set (m_banned covered) \<and>
   octets_IsSuperset [10, 0] [10, 0, 0] \<and>
   3600 <s nBanUntil (fst (Ban_new_entry 7200 False covered (world0 0 True))) \<and>
   \<not> fst (Ban octets_IsSuperset [10, 0] 7200 False covered (world0 0 True)) \<and>
   fst (snd (Ban octets_IsSuperset [10, 0] 7200 False covered (world0 0 True))) = covered \<and>
   fst (Ban octets_IsSuperset [10, 0] 7200 False scenario3 (world0 0 True)) \<and>
   \<not> m_is_dirty (fst (snd (Ban octets_IsSuperset [10, 0] 7200 False scenario3 (world0 0 True)))) \<and>
   3600 <s nBanUntil (fst (Ban_new_entry 7200 True scenario3 (world0 10000 True))) \<and>
   fst (Ban octets_IsSuperset [10, 0] 7200 True scenario3 (world0 10000 True)) \<and>
   m_banned (fst (snd (Ban octets_IsSuperset [10, 0] 7200 True scenario3 (world0 10000 True)))) = []"
proof -
  have rejected: "Ban octets_IsSuperset [10, 0] 7200 False covered (world0 0 True) =
      (False, covered, (world0 0 True)\<lparr>ticks := Suc (Suc 0)\<rparr>)"
    by (simp add: Ban_def Ban_new_entry_eq Ban_locked_def covered_def banman0_def world0_def
        octets_IsSuperset_def word_sle_eq word_sless_alt)
  have swept: "Ban octets_IsSuperset [10, 0] 7200 True scenario3 (world0 10000 True) =
      (True, banman0 [],
       \<lparr>clock = (\<lambda>_. 10000), ticks = 3, disk_ok = (\<lambda>_. True), writes = 1,
         events = [BannedListChanged, BannedListChanged, DbWrite [] True]\<rparr>)"
    by (simp add: Ban_def Ban_new_entry_eq Ban_locked_def DumpBanlist_def GetBanned_def SweepBanned_eq
        db_Write_def ui_BannedListChanged_def scenario3_def banman0_def world0_def octets_IsSuperset_def
        banmap_erase_def word_sle_eq word_sless_alt)
  have "3600 <s nBanUntil (fst (Ban_new_entry 7200 False covered (world0 0 True)))"
    and "3600 <s nBanUntil (fst (Ban_new_entry 7200 True scenario3 (world0 10000 True)))"
    by (simp_all add: Ban_new_entry_eq world0_def word_sle_eq word_sless_alt)
  moreover have "([10, 0, 0], \<lparr>nCreateTime = 0, nBanUntil = 3600\<rparr>) \<in> set (m_banned covered)"
    and "octets_IsSuperset [10, 0] [10, 0, 0]"
    by (simp_all add: covered_def banman0_def octets_IsSuperset_def)
  ultimately show ?thesis
    by (simp add: rejected swept Ban_scenario3 banman0_def)
qed

theorem ban_broader_replaces_witness:
  "([10, 0, 0], \<lparr>nCreateTime = 0, nBanUntil = 3600\<rparr>) \<in> set (m_banned scenario3) \<and>
   octets_IsSuperset [10, 0] [10, 0, 0] \<and>
   3600 <s nBanUntil (fst (Ban_new_entry 7200 False scenario3 (world0 0 True))) \<and>
   fst (Ban octets_IsSuperset [10, 0] 7200 False scenario3 (world0 0 True)) \<and>
   ([10, 0], \<lparr>nCreateTime = 0, nBanUntil = 7200\<rparr>)
      \<in> set (m_banned (fst (snd (Ban octets_IsSuperset [10, 0] 7200 False scenario3 (world0 0 True))))) \<and>
   [10, 0, 0] \<notin> fst ` set (m_banned (fst (snd (Ban octets_IsSuperset [10, 0] 7200 False scenario3 (world0 0 True))))) \<and>
   \<not> m_is_dirty (fst (snd (Ban octets_IsSuperset [10, 0] 7200 False scenario3 (world0 0 True))))"
proof -
  let ?n = "\<lparr>nCreateTime = 0, nBanUntil = 7200\<rparr>"
  let ?w1 = "(world0 0 True)\<lparr>ticks := 2\<rparr>"
  have h1: "([10, 0, 0], \<lparr>nCreateTime = 0, nBanUntil = 3600\<rparr>) \<in> set (m_banned scenario3)"
    by (simp add: scenario3_def banman0_def)
  have h2: "octets_IsSuperset [10, 0] [10, 0, 0]"
    by (simp add: octets_IsSuperset_def)
  have h3: "Ban_new_entry 7200 False scenario3 (world0 0 True) = (?n, ?w1)"
    by (simp add: Ban_new_entry_eq world0_def word_sle_eq numeral_2_eq_2)
  have h4: "nBanUntil \<lparr>nCreateTime = 0, nBanUntil = 3600\<rparr> <s nBanUntil ?n"
    by simp
  have h5: "\<forall>e\<in>set (m_banned scenario3). octets_IsSuperset (fst e) [10, 0] \<longrightarrow>
      nBanUntil (snd e) <s nBanUntil ?n"
    by (simp add: scenario3_def banman0_def)
  obtain r b' w' where h6: "Ban octets_IsSuperset [10, 0] 7200 False scenario3 (world0 0 True) = (r, b', w')"
    by (cases "Ban octets_IsSuperset [10, 0] 7200 False scenario3 (world0 0 True)")
  have t: "\<not> nBanUntil ?n <s clock ?w1 (ticks ?w1)" "\<not> nBanUntil ?n <s clock ?w1 (Suc (ticks ?w1))"
    "disk_ok (world0 0 True) (writes (world0 0 True))" "[10, 0] \<noteq> [10, 0, 0::nat]"
    by (simp_all add: world0_def word_sless_alt)
  from ban_broader_replaces [where IsSuperset = octets_IsSuperset, OF h1 h2 h3 h4 h5 h6] t
  have "r \<and> ([10, 0], ?n) \<in> set (m_banned b') \<and> [10, 0, 0] \<notin> fst ` set (m_banned b') \<and>
      \<not> m_is_dirty b'"
    by blast
  with h1 h2 h4 show ?thesis
    by (simp add: h3 h6)
qed

section \<open>Ban: the expiry of the new entry\<close>

text \<open>
  Claim C3. Every call of \<open>Ban\<close> builds the entry \<open>n\<close> with \<open>nCreateTime\<close> the first clock
  reading of the call and \<open>nBanUntil = until\<close>, where \<open>until = now + m_default_ban_time\<close>
  when the offset is not positive, whatever the flag \<open>since_unix_epoch\<close> says, and
  \<open>until = (if since_unix_epoch then 0 else now) + ban_time_offset\<close> otherwise; \<open>now\<close> is the
  clock as read for \<open>nBanUntil\<close> (the second reading of the call) and \<open>+\<close> is the addition
  of \<open>int64_t\<close>. \<open>Ban\<close> returns true exactly when no entry whose subnet is a superset of
  \<open>sub_net\<close> expires at or after \<open>until\<close>; when it returns false the object is unchanged.
  When it returns true its locked block has stored \<open>n\<close> under the key \<open>sub_net\<close>, and after
  the call \<open>n\<close> is in the banned map under \<open>sub_net\<close> unless \<open>until\<close> is before one of the two
  clock readings of the flush that ends the call (readings number \<open>t\<close> and \<open>t + 1\<close>); on a
  map in key order no other entry is stored under \<open>sub_net\<close>.
\<close>

theorem ban_until_normalized:
  "nBanUntil (fst (Ban_new_entry ban_time_offset since_unix_epoch b w)) =
     (if ban_time_offset \<le>s 0 then clock w (Suc (ticks w)) + m_default_ban_time b
      else (if since_unix_epoch then 0 else clock w (Suc (ticks w))) + ban_time_offset) \<and>
   (\<forall>b1. Ban_locked IsSuperset sub_net
            (fst (Ban_new_entry ban_time_offset since_unix_epoch b w)) b = Some b1 \<longrightarrow>
      map_of (m_banned b1) sub_net =
        Some (fst (Ban_new_entry ban_time_offset since_unix_epoch b w))) \<and>
   (let until = (if ban_time_offset \<le>s 0 then clock w (Suc (ticks w)) + m_default_ban_time b
                 else (if since_unix_epoch then 0 else clock w (Suc (ticks w))) + ban_time_offset);
        n = \<lparr>nCreateTime = clock w (ticks w), nBanUntil = until\<rparr>;
        t = (if \<not> ban_time_offset \<le>s 0 \<and> since_unix_epoch then Suc (ticks w)
             else Suc (Suc (ticks w)));
        r = fst (Ban IsSuperset sub_net ban_time_offset since_unix_epoch b w);
        b' = fst (snd (Ban IsSuperset sub_net ban_time_offset since_unix_epoch b w))
    in (r \<longleftrightarrow> (\<forall>e\<in>set (m_banned b). IsSuperset (fst e) sub_net \<longrightarrow> nBanUntil (snd e) <s until)) \<and>
       (\<not> r \<longrightarrow> b' = b) \<and>
       (r \<longrightarrow> ((sub_net, n) \<in> set (m_banned b') \<longleftrightarrow>
                  \<not> until <s clock w t \<and> \<not> until <s clock w (Suc t))) \<and>
       (r \<and> banmap_ok (m_banned b) \<longrightarrow> (\<forall>e. (sub_net, e) \<in> set (m_banned b') \<longrightarrow> e = n)))"
proof -
  define until where "until = (if ban_time_offset \<le>s 0 then clock w (Suc (ticks w)) + m_default_ban_time b
                 else (if since_unix_epoch then 0 else clock w (Suc (ticks w))) + ban_time_offset)"
  define n where "n = \<lparr>nCreateTime = clock w (ticks w), nBanUntil = until\<rparr>"
  define t where "t = (if \<not> ban_time_offset \<le>s 0 \<and> since_unix_epoch then Suc (ticks w)
             else Suc (Suc (ticks w)))"
  define w1 where "w1 = snd (Ban_new_entry ban_time_offset since_unix_epoch b w)"
  define r where "r = fst (Ban IsSuperset sub_net ban_time_offset since_unix_epoch b w)"
  define b' where "b' = fst (snd (Ban IsSuperset sub_net ban_time_offset since_unix_epoch b w))"
  have n: "fst (Ban_new_entry ban_time_offset since_unix_epoch b w) = n"
    by (simp add: Ban_new_entry_eq n_def until_def)
  have un: "nBanUntil n = until"
    by (simp add: n_def)
  have w1: "clock w1 = clock w" "ticks w1 = t"
    by (auto simp: w1_def t_def Ban_new_entry_eq)
  have first: "nBanUntil (fst (Ban_new_entry ban_time_offset since_unix_epoch b w)) = until"
    by (simp add: n un)
  have locked: "\<forall>b1. Ban_locked IsSuperset sub_net n b = Some b1 \<longrightarrow>
      map_of (m_banned b1) sub_net = Some n"
    by (auto dest: Ban_locked_Some(3))
  have r_iff: "r \<longleftrightarrow> (\<forall>e\<in>set (m_banned b). IsSuperset (fst e) sub_net \<longrightarrow> nBanUntil (snd e) <s until)"
  proof (cases "Ban_locked IsSuperset sub_net n b")
    case None
    then have "\<not> r"
      using Ban_rejected [of IsSuperset sub_net ban_time_offset since_unix_epoch b w]
      by (simp add: r_def n)
    with None show ?thesis
      by (auto simp: Ban_locked_None un signed.not_less)
  next
    case (Some b1)
    then have "r"
      using Ban_accepted [of IsSuperset sub_net ban_time_offset since_unix_epoch b w b1]
      by (simp add: r_def n)
    moreover from Some have "Ban_locked IsSuperset sub_net n b \<noteq> None"
      by simp
    ultimately show ?thesis
      by (auto simp: Ban_locked_None un signed.not_le)
  qed
  have rej: "\<not> r \<longrightarrow> b' = b"
  proof
    assume "\<not> r"
    then have "Ban_locked IsSuperset sub_net n b = None"
      using Ban_accepted [of IsSuperset sub_net ban_time_offset since_unix_epoch b w]
      by (cases "Ban_locked IsSuperset sub_net n b") (auto simp: r_def n)
    then show "b' = b"
      using Ban_rejected [of IsSuperset sub_net ban_time_offset since_unix_epoch b w]
      by (simp add: b'_def n)
  qed
  have acc: "((sub_net, n) \<in> set (m_banned b') \<longleftrightarrow>
                  \<not> until <s clock w t \<and> \<not> until <s clock w (Suc t)) \<and>
             (banmap_ok (m_banned b) \<longrightarrow> (\<forall>e. (sub_net, e) \<in> set (m_banned b') \<longrightarrow> e = n))" if "r"
  proof -
    from that obtain b1 where b1: "Ban_locked IsSuperset sub_net n b = Some b1"
      using Ban_rejected [of IsSuperset sub_net ban_time_offset since_unix_epoch b w]
      by (cases "Ban_locked IsSuperset sub_net n b") (auto simp: r_def n)
    let ?w2 = "if m_client_interface b then ui_BannedListChanged w1 else w1"
    have w2: "clock ?w2 = clock w" "ticks ?w2 = t"
      by (simp_all add: w1 ui_BannedListChanged_def)
    have "b' = fst (DumpBanlist b1 ?w2)"
      using Ban_accepted [of IsSuperset sub_net ban_time_offset since_unix_epoch b w b1] b1
      by (simp add: b'_def n w1_def)
    then have m': "m_banned b' = unexpired (clock w (Suc t)) (unexpired (clock w t) (m_banned b1))"
      using DumpBanlist_dirty_facts(1) [OF Ban_locked_Some(1) [OF b1], of ?w2]
      by (simp only: w2)
    have "(sub_net, n) \<in> set (m_banned b1)"
      using Ban_locked_Some(3) [OF b1] by (rule map_of_SomeD)
    then have kept: "(sub_net, n) \<in> set (m_banned b') \<longleftrightarrow>
                  \<not> until <s clock w t \<and> \<not> until <s clock w (Suc t)"
      by (auto simp: m' un)
    have "e = n" if "banmap_ok (m_banned b)" "(sub_net, e) \<in> set (m_banned b')" for e
    proof -
      from that(2) have "(sub_net, e) \<in> set (m_banned b1)"
        by (simp add: m')
      with b1 that(1) show ?thesis
        by (rule Ban_locked_Some_unique)
    qed
    with kept show ?thesis
      by blast
  qed
  from first locked r_iff rej acc show ?thesis
    unfolding Let_def until_def [symmetric] n_def [symmetric] t_def [symmetric]
      r_def [symmetric] b'_def [symmetric] n
    by blast
qed

theorem ban_until_normalized_witness:
  "nBanUntil (fst (Ban_new_entry (- 5) True (banman0 []) (world0 100 True))) = 86500 \<and>
   (\<exists>b1. Ban_locked octets_IsSuperset [10, 0, 0]
            (fst (Ban_new_entry (- 5) True (banman0 []) (world0 100 True))) (banman0 []) = Some b1 \<and>
         map_of (m_banned b1) [10, 0, 0] = Some \<lparr>nCreateTime = 100, nBanUntil = 86500\<rparr>) \<and>
   fst (Ban octets_IsSuperset [10, 0, 0] (- 5) True (banman0 []) (world0 100 True)) \<and>
   m_banned (fst (snd (Ban octets_IsSuperset [10, 0, 0] (- 5) True (banman0 []) (world0 100 True)))) =
     [([10, 0, 0], \<lparr>nCreateTime = 100, nBanUntil = 86500\<rparr>)] \<and>
   fst (Ban octets_IsSuperset [10, 0] 7200 True scenario3 (world0 100 True)) \<and>
   m_banned (fst (snd (Ban octets_IsSuperset [10, 0] 7200 True scenario3 (world0 100 True)))) =
     [([10, 0], \<lparr>nCreateTime = 100, nBanUntil = 7200\<rparr>)]"
proof -
  note run = ban_until_normalized [where IsSuperset = octets_IsSuperset and sub_net = "[10, 0, 0]"
      and ban_time_offset = "- 5" and since_unix_epoch = True and b = "banman0 []"
      and w = "world0 100 True"]
  have none: "\<forall>e\<in>set (m_banned (banman0 [])). octets_IsSuperset (fst e) [10, 0, 0] \<longrightarrow>
      nBanUntil (snd e) <s (if (- 5 :: int64_t) \<le>s 0
        then clock (world0 100 True) (Suc (ticks (world0 100 True))) + m_default_ban_time (banman0 [])
        else (if True then 0 else clock (world0 100 True) (Suc (ticks (world0 100 True)))) + (- 5))"
    by (simp add: banman0_def)
  from run none have r: "fst (Ban octets_IsSuperset [10, 0, 0] (- 5) True (banman0 []) (world0 100 True))"
    unfolding Let_def by blast
  have until: "nBanUntil (fst (Ban_new_entry (- 5) True (banman0 []) (world0 100 True))) = 86500"
    using run by (simp add: banman0_def world0_def word_sle_eq)
  have locked: "\<exists>b1. Ban_locked octets_IsSuperset [10, 0, 0]
            (fst (Ban_new_entry (- 5) True (banman0 []) (world0 100 True))) (banman0 []) = Some b1 \<and>
         map_of (m_banned b1) [10, 0, 0] = Some \<lparr>nCreateTime = 100, nBanUntil = 86500\<rparr>"
    by (simp add: Ban_new_entry_eq Ban_locked_def banman0_def world0_def word_sle_eq)
  have m1: "m_banned (fst (snd (Ban octets_IsSuperset [10, 0, 0] (- 5) True (banman0 []) (world0 100 True)))) =
     [([10, 0, 0], \<lparr>nCreateTime = 100, nBanUntil = 86500\<rparr>)]"
    by (simp add: Ban_def Ban_new_entry_eq Ban_locked_def DumpBanlist_def GetBanned_def SweepBanned_eq
        db_Write_def ui_BannedListChanged_def banman0_def world0_def word_sle_eq word_sless_alt)
  have r2: "fst (Ban octets_IsSuperset [10, 0] 7200 True scenario3 (world0 100 True))"
    and m2: "m_banned (fst (snd (Ban octets_IsSuperset [10, 0] 7200 True scenario3 (world0 100 True)))) =
     [([10, 0], \<lparr>nCreateTime = 100, nBanUntil = 7200\<rparr>)]"
    by (simp_all add: Ban_def Ban_new_entry_eq Ban_locked_def DumpBanlist_def GetBanned_def SweepBanned_eq
        db_Write_def ui_BannedListChanged_def scenario3_def banman0_def world0_def octets_IsSuperset_def
        banmap_erase_def word_sle_eq word_sless_alt)
  from until locked r m1 r2 m2 show ?thesis
    by blast
qed

section \<open>HasBannedAddresses\<close>

text \<open>
  Claim C4. \<open>HasBannedAddresses\<close> returns true if and only if the banned map has an entry
  whose \<open>nBanUntil\<close> is strictly greater than the clock as read by the call and whose
  subnet is a superset of the queried subnet or a subset of it.
\<close>

theorem HasBannedAddresses_iff:
  "fst (HasBannedAddresses IsSuperset sub_net b w) \<longleftrightarrow>
     (\<exists>e\<in>set (m_banned b).
        clock w (ticks w) <s nBanUntil (snd e) \<and>
        (IsSuperset (fst e) sub_net \<or> IsSuperset sub_net (fst e)))"
proof -
  have "fst (HasBannedAddresses IsSuperset sub_net b w) =
      HasBannedAddresses_loop IsSuperset sub_net (clock w (ticks w)) (m_banned b)"
    by (simp add: HasBannedAddresses_def GetTime_def)
  also have "\<dots> \<longleftrightarrow> (\<exists>e\<in>set (m_banned b).
        clock w (ticks w) <s nBanUntil (snd e) \<and>
        (IsSuperset (fst e) sub_net \<or> IsSuperset sub_net (fst e)))"
    by (auto simp: HasBannedAddresses_loop_eq)
  finally show ?thesis .
qed

theorem HasBannedAddresses_iff_witness:
  "(\<exists>e\<in>set (m_banned (banman0 [([10, 0, 0], \<lparr>nCreateTime = 0, nBanUntil = 3600\<rparr>)])).
      clock (world0 0 True) (ticks (world0 0 True)) <s nBanUntil (snd e) \<and>
      (octets_IsSuperset (fst e) [10, 0, 0, 5] \<or> octets_IsSuperset [10, 0, 0, 5] (fst e))) \<and>
   fst (HasBannedAddresses octets_IsSuperset [10, 0, 0, 5]
          (banman0 [([10, 0, 0], \<lparr>nCreateTime = 0, nBanUntil = 3600\<rparr>)]) (world0 0 True))"
  using HasBannedAddresses_iff [of octets_IsSuperset "[10, 0, 0, 5]"
      "banman0 [([10, 0, 0], \<lparr>nCreateTime = 0, nBanUntil = 3600\<rparr>)]" "world0 0 True"]
  by (simp add: banman0_def world0_def octets_IsSuperset_def word_sless_alt)

section \<open>SweepBanned\<close>

text \<open>
  Claim C5. With \<open>now\<close> the clock as read by \<open>SweepBanned\<close>: the sweep removes exactly
  the entries with \<open>nBanUntil < now\<close>, in place; the dirty flag is set as soon as one
  entry is removed and is otherwise left as it was; every entry with \<open>now \<le> nBanUntil\<close>
  stays. Before any sweep, \<open>HasBannedAddresses\<close> reading the same clock value does not
  report an entry with \<open>nBanUntil < now\<close> (on the map holding that entry alone it returns
  false), and on the whole map it answers as it does on the swept map.
\<close>

theorem SweepBanned_removes_expired:
  "m_banned (fst (SweepBanned b w)) =
     filter (\<lambda>e. \<not> expired_at (clock w (ticks w)) e) (m_banned b) \<and>
   (m_is_dirty (fst (SweepBanned b w)) \<longleftrightarrow>
      m_is_dirty b \<or> (\<exists>e\<in>set (m_banned b). expired_at (clock w (ticks w)) e)) \<and>
   (\<forall>e\<in>set (m_banned b).
      clock w (ticks w) \<le>s nBanUntil (snd e) \<longrightarrow> e \<in> set (m_banned (fst (SweepBanned b w)))) \<and>
   (\<forall>e\<in>set (m_banned b).
      expired_at (clock w (ticks w)) e \<longrightarrow>
      \<not> fst (HasBannedAddresses IsSuperset sub_net (b\<lparr>m_banned := [e]\<rparr>) w)) \<and>
   fst (HasBannedAddresses IsSuperset sub_net b w) =
     fst (HasBannedAddresses IsSuperset sub_net (fst (SweepBanned b w)) w)"
proof -
  let ?now = "clock w (ticks w)"
  have swept: "m_banned (fst (SweepBanned b w)) = filter (\<lambda>e. \<not> expired_at ?now e) (m_banned b)"
    by (simp add: SweepBanned_eq)
  have dirty: "m_is_dirty (fst (SweepBanned b w)) \<longleftrightarrow>
      m_is_dirty b \<or> (\<exists>e\<in>set (m_banned b). expired_at ?now e)"
    by (simp add: SweepBanned_eq)
  have kept: "\<forall>e\<in>set (m_banned b). ?now \<le>s nBanUntil (snd e) \<longrightarrow>
      e \<in> set (m_banned (fst (SweepBanned b w)))"
    by (simp add: swept signed.not_less)
  have single: "\<forall>e\<in>set (m_banned b). expired_at ?now e \<longrightarrow>
      \<not> fst (HasBannedAddresses IsSuperset sub_net (b\<lparr>m_banned := [e]\<rparr>) w)"
    by (auto simp: HasBannedAddresses_def GetTime_def dest: signed.less_asym)
  have "HasBannedAddresses_loop IsSuperset sub_net ?now
          (filter (\<lambda>e. \<not> expired_at ?now e) (m_banned b)) =
        HasBannedAddresses_loop IsSuperset sub_net ?now (m_banned b)"
    by (rule HasBannedAddresses_filter) (auto dest: signed.less_asym)
  then have same: "fst (HasBannedAddresses IsSuperset sub_net b w) =
     fst (HasBannedAddresses IsSuperset sub_net (fst (SweepBanned b w)) w)"
    by (simp add: HasBannedAddresses_def GetTime_def swept)
  from swept dirty kept single same show ?thesis
    by blast
qed

theorem SweepBanned_removes_expired_witness:
  "m_banned (fst (SweepBanned
      (banman0 [([10, 0], \<lparr>nCreateTime = 0, nBanUntil = 50\<rparr>),
                ([10, 0, 0], \<lparr>nCreateTime = 0, nBanUntil = 200\<rparr>)]) (world0 100 True))) =
     [([10, 0, 0], \<lparr>nCreateTime = 0, nBanUntil = 200\<rparr>)] \<and>
   m_is_dirty (fst (SweepBanned
      (banman0 [([10, 0], \<lparr>nCreateTime = 0, nBanUntil = 50\<rparr>),
                ([10, 0, 0], \<lparr>nCreateTime = 0, nBanUntil = 200\<rparr>)]) (world0 100 True))) \<and>
   \<not> fst (HasBannedAddresses octets_IsSuperset [10, 0, 5]
      (banman0 [([10, 0], \<lparr>nCreateTime = 0, nBanUntil = 50\<rparr>),
                ([10, 0, 0], \<lparr>nCreateTime = 0, nBanUntil = 200\<rparr>)]) (world0 100 True))"
  using SweepBanned_removes_expired [of
      "banman0 [([10, 0], \<lparr>nCreateTime = 0, nBanUntil = 50\<rparr>),
                ([10, 0, 0], \<lparr>nCreateTime = 0, nBanUntil = 200\<rparr>)]" "world0 100 True"
      octets_IsSuperset "[10, 0, 5]"]
  by (simp add: banman0_def world0_def octets_IsSuperset_def HasBannedAddresses_def GetTime_def)

section \<open>DumpBanlist\<close>

text \<open>
  Claim C6. \<open>DumpBanlist\<close> sweeps first. If the dirty flag is clear after the sweep, it
  does nothing more: no write, no event. Otherwise it takes the map from \<open>GetBanned\<close>,
  writes it once to the ban database, and leaves the dirty flag set exactly when the write
  failed. A set dirty flag survives the sweep, so the next \<open>DumpBanlist\<close> writes again.
  What \<open>Ban\<close> and \<open>Unban\<close> return does not depend on the write: \<open>Ban\<close> returns true
  exactly when its scan did not reject the request, \<open>Unban\<close> exactly when it erased an
  entry, and when they return true and the write fails the dirty flag is still set.
\<close>

theorem DumpBanlist_flush:
  "(\<not> m_is_dirty (fst (SweepBanned b w)) \<longrightarrow>
      DumpBanlist b w = SweepBanned b w \<and>
      writes (snd (DumpBanlist b w)) = writes w \<and> events (snd (DumpBanlist b w)) = events w) \<and>
   (m_is_dirty (fst (SweepBanned b w)) \<longrightarrow>
      writes (snd (DumpBanlist b w)) = Suc (writes w) \<and>
      m_banned (fst (DumpBanlist b w)) =
        fst (GetBanned (fst (SweepBanned b w)) (snd (SweepBanned b w))) \<and>
      (\<exists>ns. set ns \<subseteq> {BannedListChanged} \<and>
         events (snd (DumpBanlist b w)) =
           events w @ ns @ [DbWrite (m_banned (fst (DumpBanlist b w))) (disk_ok w (writes w))]) \<and>
      (m_is_dirty (fst (DumpBanlist b w)) \<longleftrightarrow> \<not> disk_ok w (writes w))) \<and>
   (m_is_dirty b \<longrightarrow> m_is_dirty (fst (SweepBanned b w))) \<and>
   (fst (Ban IsSuperset sub_net ban_time_offset since_unix_epoch b w) \<longleftrightarrow>
      Ban_locked IsSuperset sub_net (fst (Ban_new_entry ban_time_offset since_unix_epoch b w)) b \<noteq> None) \<and>
   (fst (Ban IsSuperset sub_net ban_time_offset since_unix_epoch b w) \<and> \<not> disk_ok w (writes w) \<longrightarrow>
      m_is_dirty (fst (snd (Ban IsSuperset sub_net ban_time_offset since_unix_epoch b w)))) \<and>
   (fst (Unban sub_net b w) \<longleftrightarrow> fst (banmap_erase sub_net (m_banned b)) \<noteq> 0) \<and>
   (fst (Unban sub_net b w) \<and> \<not> disk_ok w (writes w) \<longrightarrow>
      m_is_dirty (fst (snd (Unban sub_net b w))))"
proof -
  have clean: "\<not> m_is_dirty (fst (SweepBanned b w)) \<longrightarrow>
      DumpBanlist b w = SweepBanned b w \<and>
      writes (snd (DumpBanlist b w)) = writes w \<and> events (snd (DumpBanlist b w)) = events w"
  proof
    assume c: "\<not> m_is_dirty (fst (SweepBanned b w))"
    have "DumpBanlist b w = (b, w\<lparr>ticks := Suc (ticks w)\<rparr>)"
      using DumpBanlist_clean [OF c] SweepBanned_clean [OF c] by simp
    with c show "DumpBanlist b w = SweepBanned b w \<and>
      writes (snd (DumpBanlist b w)) = writes w \<and> events (snd (DumpBanlist b w)) = events w"
      by (simp add: DumpBanlist_clean)
  qed
  have dirty: "m_is_dirty (fst (SweepBanned b w)) \<longrightarrow>
      writes (snd (DumpBanlist b w)) = Suc (writes w) \<and>
      m_banned (fst (DumpBanlist b w)) =
        fst (GetBanned (fst (SweepBanned b w)) (snd (SweepBanned b w))) \<and>
      (\<exists>ns. set ns \<subseteq> {BannedListChanged} \<and>
         events (snd (DumpBanlist b w)) =
           events w @ ns @ [DbWrite (m_banned (fst (DumpBanlist b w))) (disk_ok w (writes w))]) \<and>
      (m_is_dirty (fst (DumpBanlist b w)) \<longleftrightarrow> \<not> disk_ok w (writes w))"
  proof
    assume d: "m_is_dirty (fst (SweepBanned b w))"
    note eq = DumpBanlist_dirty [OF d]
    have m: "m_banned (fst (DumpBanlist b w)) =
        fst (GetBanned (fst (SweepBanned b w)) (snd (SweepBanned b w)))"
      unfolding eq by (simp add: GetBanned_def split_beta)
    obtain n1 where n1: "events (snd (SweepBanned b w)) = events w @ n1" "set n1 \<subseteq> {BannedListChanged}"
      using SweepBanned_world [of b w] by blast
    obtain n2 where n2: "events (snd (SweepBanned (fst (SweepBanned b w)) (snd (SweepBanned b w)))) =
        events (snd (SweepBanned b w)) @ n2" "set n2 \<subseteq> {BannedListChanged}"
      using SweepBanned_world [of "fst (SweepBanned b w)" "snd (SweepBanned b w)"] by blast
    have "events (snd (DumpBanlist b w)) =
        events w @ (n1 @ n2) @ [DbWrite (m_banned (fst (DumpBanlist b w))) (disk_ok w (writes w))]"
      unfolding eq using n1(1) n2(1) by (simp add: GetBanned_def split_beta)
    moreover have "set (n1 @ n2) \<subseteq> {BannedListChanged}"
      using n1(2) n2(2) by simp
    ultimately have ev: "\<exists>ns. set ns \<subseteq> {BannedListChanged} \<and>
         events (snd (DumpBanlist b w)) =
           events w @ ns @ [DbWrite (m_banned (fst (DumpBanlist b w))) (disk_ok w (writes w))]"
      by blast
    have "writes (snd (DumpBanlist b w)) = Suc (writes w)"
      and "m_is_dirty (fst (DumpBanlist b w)) \<longleftrightarrow> \<not> disk_ok w (writes w)"
      unfolding eq by simp_all
    with m ev show "writes (snd (DumpBanlist b w)) = Suc (writes w) \<and>
      m_banned (fst (DumpBanlist b w)) =
        fst (GetBanned (fst (SweepBanned b w)) (snd (SweepBanned b w))) \<and>
      (\<exists>ns. set ns \<subseteq> {BannedListChanged} \<and>
         events (snd (DumpBanlist b w)) =
           events w @ ns @ [DbWrite (m_banned (fst (DumpBanlist b w))) (disk_ok w (writes w))]) \<and>
      (m_is_dirty (fst (DumpBanlist b w)) \<longleftrightarrow> \<not> disk_ok w (writes w))"
      by blast
  qed
  have stays: "m_is_dirty b \<longrightarrow> m_is_dirty (fst (SweepBanned b w))"
    by (simp add: SweepBanned_eq)
  let ?n = "fst (Ban_new_entry ban_time_offset since_unix_epoch b w)"
  let ?w1 = "snd (Ban_new_entry ban_time_offset since_unix_epoch b w)"
  have ban: "(fst (Ban IsSuperset sub_net ban_time_offset since_unix_epoch b w) \<longleftrightarrow>
      Ban_locked IsSuperset sub_net ?n b \<noteq> None) \<and>
   (fst (Ban IsSuperset sub_net ban_time_offset since_unix_epoch b w) \<and> \<not> disk_ok w (writes w) \<longrightarrow>
      m_is_dirty (fst (snd (Ban IsSuperset sub_net ban_time_offset since_unix_epoch b w))))"
  proof (cases "Ban_locked IsSuperset sub_net ?n b")
    case None
    then show ?thesis by (simp add: Ban_rejected)
  next
    case (Some b1)
    let ?w2 = "if m_client_interface b then ui_BannedListChanged ?w1 else ?w1"
    have "writes ?w2 = writes w" "disk_ok ?w2 = disk_ok w"
      by (simp_all add: Ban_new_entry_eq ui_BannedListChanged_def)
    with DumpBanlist_dirty_facts(2) [OF Ban_locked_Some(1) [OF Some], of ?w2]
    have "m_is_dirty (fst (DumpBanlist b1 ?w2)) \<longleftrightarrow> \<not> disk_ok w (writes w)"
      by simp
    with Some show ?thesis
      by (simp add: Ban_accepted)
  qed
  have unban: "(fst (Unban sub_net b w) \<longleftrightarrow> fst (banmap_erase sub_net (m_banned b)) \<noteq> 0) \<and>
   (fst (Unban sub_net b w) \<and> \<not> disk_ok w (writes w) \<longrightarrow>
      m_is_dirty (fst (snd (Unban sub_net b w))))"
  proof (cases "fst (banmap_erase sub_net (m_banned b)) = 0")
    case True
    then show ?thesis by (simp add: Unban_eq)
  next
    case False
    let ?b1 = "b\<lparr>m_banned := snd (banmap_erase sub_net (m_banned b)), m_is_dirty := True\<rparr>"
    let ?w1 = "if m_client_interface b then ui_BannedListChanged w else w"
    have "writes ?w1 = writes w" "disk_ok ?w1 = disk_ok w"
      by (simp_all add: ui_BannedListChanged_def)
    with DumpBanlist_dirty_facts(2) [of ?b1 ?w1]
    have "m_is_dirty (fst (DumpBanlist ?b1 ?w1)) \<longleftrightarrow> \<not> disk_ok w (writes w)"
      by simp
    with False show ?thesis
      by (simp add: Unban_eq)
  qed
  from clean dirty stays ban unban show ?thesis
    by blast
qed

theorem DumpBanlist_flush_witness:
  "m_is_dirty (fst (SweepBanned ((banman0 [])\<lparr>m_is_dirty := True\<rparr>) (world1 0))) \<and>
   writes (snd (DumpBanlist ((banman0 [])\<lparr>m_is_dirty := True\<rparr>) (world1 0))) = 1 \<and>
   m_is_dirty (fst (DumpBanlist ((banman0 [])\<lparr>m_is_dirty := True\<rparr>) (world1 0))) \<and>
   \<not> m_is_dirty (fst (SweepBanned (banman0 []) (world1 0))) \<and>
   writes (snd (DumpBanlist (banman0 []) (world1 0))) = 0 \<and>
   fst (Ban octets_IsSuperset [10, 0, 0] 3600 False (banman0 []) (world1 0)) \<and>
   m_is_dirty (fst (snd (Ban octets_IsSuperset [10, 0, 0] 3600 False (banman0 []) (world1 0)))) \<and>
   fst (Unban [10, 0] (banman0 [([10, 0], \<lparr>nCreateTime = 0, nBanUntil = 50\<rparr>)]) (world1 0)) \<and>
   m_is_dirty (fst (snd (Unban [10, 0] (banman0 [([10, 0], \<lparr>nCreateTime = 0, nBanUntil = 50\<rparr>)]) (world1 0))))"
proof -
  have d: "m_is_dirty (fst (SweepBanned ((banman0 [])\<lparr>m_is_dirty := True\<rparr>) (world1 0)))"
    and c: "\<not> m_is_dirty (fst (SweepBanned (banman0 []) (world1 0)))"
    by (simp_all add: SweepBanned_eq banman0_def)
  have f: "\<not> disk_ok (world1 0) (writes (world1 0))"
    by (simp add: world1_def)
  have a: "Ban_locked octets_IsSuperset [10, 0, 0]
      (fst (Ban_new_entry 3600 False (banman0 []) (world1 0))) (banman0 []) \<noteq> None"
    by (simp add: Ban_locked_def banman0_def)
  have e: "fst (banmap_erase [10, 0]
      (m_banned (banman0 [([10, 0], \<lparr>nCreateTime = 0, nBanUntil = 50\<rparr>)]))) \<noteq> 0"
    by (simp add: banmap_erase_def banman0_def)
  have w0: "writes (world1 0) = 0"
    by (simp add: world1_def)
  note dirty_run = DumpBanlist_flush [where b = "(banman0 [])\<lparr>m_is_dirty := True\<rparr>" and w = "world1 0"
         and IsSuperset = octets_IsSuperset and sub_net = "[]" and ban_time_offset = 0
         and since_unix_epoch = False]
  note clean_run = DumpBanlist_flush [where b = "banman0 []" and w = "world1 0"
         and IsSuperset = octets_IsSuperset and sub_net = "[10, 0, 0]" and ban_time_offset = 3600
         and since_unix_epoch = False]
  note unban_run = DumpBanlist_flush [where b = "banman0 [([10, 0], \<lparr>nCreateTime = 0, nBanUntil = 50\<rparr>)]"
         and w = "world1 0" and IsSuperset = octets_IsSuperset and sub_net = "[10, 0]"
         and ban_time_offset = 0 and since_unix_epoch = False]
  from dirty_run d f
  have "writes (snd (DumpBanlist ((banman0 [])\<lparr>m_is_dirty := True\<rparr>) (world1 0))) = Suc (writes (world1 0))"
    and p2: "m_is_dirty (fst (DumpBanlist ((banman0 [])\<lparr>m_is_dirty := True\<rparr>) (world1 0)))"
    by blast+
  with w0 have p1: "writes (snd (DumpBanlist ((banman0 [])\<lparr>m_is_dirty := True\<rparr>) (world1 0))) = 1"
    by simp
  from clean_run c have "writes (snd (DumpBanlist (banman0 []) (world1 0))) = writes (world1 0)"
    by blast
  with w0 have p3: "writes (snd (DumpBanlist (banman0 []) (world1 0))) = 0"
    by simp
  from clean_run a f
  have p4: "fst (Ban octets_IsSuperset [10, 0, 0] 3600 False (banman0 []) (world1 0))"
    and p5: "m_is_dirty (fst (snd (Ban octets_IsSuperset [10, 0, 0] 3600 False (banman0 []) (world1 0))))"
    by blast+
  from unban_run e f
  have p6: "fst (Unban [10, 0] (banman0 [([10, 0], \<lparr>nCreateTime = 0, nBanUntil = 50\<rparr>)]) (world1 0))"
    and p7: "m_is_dirty (fst (snd (Unban [10, 0]
               (banman0 [([10, 0], \<lparr>nCreateTime = 0, nBanUntil = 50\<rparr>)]) (world1 0))))"
    by blast+
  from d c p1 p2 p3 p4 p5 p6 p7 show ?thesis
    by blast
qed

section \<open>SetBanned followed by GetBanned\<close>

text \<open>
  Claim C7. \<open>SetBanned\<close> of a map followed by \<open>GetBanned\<close> returns that map without the
  entries whose \<open>nBanUntil\<close> is strictly less than the clock as read by \<open>GetBanned\<close>,
  the other entries in their order; and \<open>SetBanned\<close> sets the dirty flag.
\<close>

theorem SetBanned_GetBanned:
  "fst (GetBanned (SetBanned banmap b) w) =
     filter (\<lambda>e. \<not> expired_at (clock w (ticks w)) e) banmap \<and>
   m_is_dirty (SetBanned banmap b)"
proof
  have "fst (GetBanned (SetBanned banmap b) w) = m_banned (fst (SweepBanned (SetBanned banmap b) w))"
    by (simp add: GetBanned_def split_beta)
  also have "\<dots> = filter (\<lambda>e. \<not> expired_at (clock w (ticks w)) e) (m_banned (SetBanned banmap b))"
    by (simp add: SweepBanned_eq)
  also have "m_banned (SetBanned banmap b) = banmap"
    by (simp add: SetBanned_def)
  finally show "fst (GetBanned (SetBanned banmap b) w) =
     filter (\<lambda>e. \<not> expired_at (clock w (ticks w)) e) banmap" .
  show "m_is_dirty (SetBanned banmap b)"
    by (simp add: SetBanned_def)
qed

theorem SetBanned_GetBanned_witness:
  "fst (GetBanned (SetBanned [([10, 0], \<lparr>nCreateTime = 0, nBanUntil = 50\<rparr>),
                              ([10, 0, 0], \<lparr>nCreateTime = 0, nBanUntil = 200\<rparr>)] (banman0 []))
         (world0 100 True)) = [([10, 0, 0], \<lparr>nCreateTime = 0, nBanUntil = 200\<rparr>)]"
  using SetBanned_GetBanned [of "[([10, 0], \<lparr>nCreateTime = 0, nBanUntil = 50\<rparr>),
                              ([10, 0, 0], \<lparr>nCreateTime = 0, nBanUntil = 200\<rparr>)]" "banman0 []"
         "world0 100 True"]
  by (simp add: world0_def)

section \<open>ClearBanned, twice\<close>

text \<open>
  Claim C8, as amended. \<open>ClearBanned\<close> called twice in a row leaves the banned map empty
  after each call. Each call sets the dirty flag, whatever the map held, and then flushes:
  each call writes the empty map to the ban database once and then, when an interface is
  installed, notifies; and after a call the dirty flag is set exactly when the write of
  that call failed.
\<close>

theorem ClearBanned_twice:
  "m_banned (fst (ClearBanned b w)) = [] \<and>
   (m_is_dirty (fst (ClearBanned b w)) \<longleftrightarrow> \<not> disk_ok w (writes w)) \<and>
   writes (snd (ClearBanned b w)) = Suc (writes w) \<and>
   m_banned (fst (case_prod ClearBanned (ClearBanned b w))) = [] \<and>
   (m_is_dirty (fst (case_prod ClearBanned (ClearBanned b w))) \<longleftrightarrow> \<not> disk_ok w (Suc (writes w))) \<and>
   writes (snd (case_prod ClearBanned (ClearBanned b w))) = Suc (Suc (writes w)) \<and>
   fst (ClearBanned b w) = b\<lparr>m_banned := [], m_is_dirty := \<not> disk_ok w (writes w)\<rparr> \<and>
   fst (case_prod ClearBanned (ClearBanned b w)) =
     b\<lparr>m_banned := [], m_is_dirty := \<not> disk_ok w (Suc (writes w))\<rparr> \<and>
   events (snd (ClearBanned b w)) =
     events w @ [DbWrite [] (disk_ok w (writes w))] @
     (if m_client_interface b then [BannedListChanged] else []) \<and>
   events (snd (case_prod ClearBanned (ClearBanned b w))) =
     events w @ [DbWrite [] (disk_ok w (writes w))] @
     (if m_client_interface b then [BannedListChanged] else []) @
     [DbWrite [] (disk_ok w (Suc (writes w)))] @
     (if m_client_interface b then [BannedListChanged] else [])"
proof -
  obtain b1 w1 where first: "ClearBanned b w = (b1, w1)"
    by (cases "ClearBanned b w")
  then have one: "m_banned b1 = []" "m_is_dirty b1 \<longleftrightarrow> \<not> disk_ok w (writes w)"
    "writes w1 = Suc (writes w)" "disk_ok w1 = disk_ok w" "m_client_interface b1 = m_client_interface b"
    "events w1 = events w @ [DbWrite [] (disk_ok w (writes w))] @
       (if m_client_interface b then [BannedListChanged] else [])"
    "b1 = b\<lparr>m_banned := [], m_is_dirty := \<not> disk_ok w (writes w)\<rparr>"
    by (auto simp: ClearBanned_eq)
  have two: "m_banned (fst (ClearBanned b1 w1)) = []"
    "m_is_dirty (fst (ClearBanned b1 w1)) \<longleftrightarrow> \<not> disk_ok w1 (writes w1)"
    "writes (snd (ClearBanned b1 w1)) = Suc (writes w1)"
    "events (snd (ClearBanned b1 w1)) = events w1 @ [DbWrite [] (disk_ok w1 (writes w1))] @
       (if m_client_interface b1 then [BannedListChanged] else [])"
    "fst (ClearBanned b1 w1) = b1\<lparr>m_banned := [], m_is_dirty := \<not> disk_ok w1 (writes w1)\<rparr>"
    by (simp_all add: ClearBanned_eq)
  from one two show ?thesis
    by (simp add: first)
qed

text \<open>
  The claim as stated has the registry dirty after the first call only, the second call
  changing nothing. With a ban database that cannot be written, the registry is dirty after
  the first call and after the second one. With one that can, the registry is not dirty
  after the first call, and the second call writes and notifies again: it has set the
  dirty flag again, since a flush of a clean registry writes nothing.
\<close>

theorem ClearBanned_twice_counterexample:
  "m_is_dirty (fst (ClearBanned (banman0 []) (world0 0 False))) \<and>
   m_is_dirty (fst (case_prod ClearBanned (ClearBanned (banman0 []) (world0 0 False)))) \<and>
   \<not> m_is_dirty (fst (ClearBanned (banman0 []) (world0 0 True))) \<and>
   events (snd (case_prod ClearBanned (ClearBanned (banman0 []) (world0 0 True)))) =
     [DbWrite [] True, BannedListChanged, DbWrite [] True, BannedListChanged]"
  by (simp add: ClearBanned_eq banman0_def world0_def)

theorem ClearBanned_twice_witness:
  "\<not> m_is_dirty (fst (ClearBanned scenario3 (world0 0 True))) \<and>
   m_banned (fst (ClearBanned scenario3 (world0 0 True))) = [] \<and>
   writes (snd (case_prod ClearBanned (ClearBanned scenario3 (world0 0 True)))) = 2 \<and>
   events (snd (case_prod ClearBanned (ClearBanned scenario3 (world0 0 True)))) =
     [DbWrite [] True, BannedListChanged, DbWrite [] True, BannedListChanged]"
  using ClearBanned_twice [of scenario3 "world0 0 True"]
  by (simp add: world0_def scenario3_def banman0_def)

section \<open>When the interface is notified\<close>




section \<open>An entry that expires at this very second\<close>

text \<open>
  Claim C10. Let an entry of the banned map have \<open>nBanUntil\<close> equal to the clock as read
  by the call. \<open>HasBannedAddresses\<close> does not count it: on the map holding this entry alone
  it returns false for every queried subnet, and on the whole map it answers as it does
  without the entry. \<open>SweepBanned\<close> keeps the entry, and \<open>GetBanned\<close> returns it.
\<close>

theorem expiring_now_kept_not_banned:
  assumes "(k, e) \<in> set (m_banned b)" and "nBanUntil e = clock w (ticks w)"
  shows "\<not> fst (HasBannedAddresses IsSuperset sub_net (b\<lparr>m_banned := [(k, e)]\<rparr>) w) \<and>
         fst (HasBannedAddresses IsSuperset sub_net b w) =
           fst (HasBannedAddresses IsSuperset sub_net
                  (b\<lparr>m_banned := filter (\<lambda>x. x \<noteq> (k, e)) (m_banned b)\<rparr>) w) \<and>
         (k, e) \<in> set (m_banned (fst (SweepBanned b w))) \<and>
         (k, e) \<in> set (fst (GetBanned b w))"
proof -
  let ?now = "clock w (ticks w)"
  have single: "\<not> fst (HasBannedAddresses IsSuperset sub_net (b\<lparr>m_banned := [(k, e)]\<rparr>) w)"
    using assms(2) by (simp add: HasBannedAddresses_def GetTime_def)
  have "HasBannedAddresses_loop IsSuperset sub_net ?now (filter (\<lambda>x. x \<noteq> (k, e)) (m_banned b)) =
        HasBannedAddresses_loop IsSuperset sub_net ?now (m_banned b)"
    by (rule HasBannedAddresses_filter) (use assms(2) in auto)
  then have same: "fst (HasBannedAddresses IsSuperset sub_net b w) =
           fst (HasBannedAddresses IsSuperset sub_net
                  (b\<lparr>m_banned := filter (\<lambda>x. x \<noteq> (k, e)) (m_banned b)\<rparr>) w)"
    by (simp add: HasBannedAddresses_def GetTime_def)
  have kept: "(k, e) \<in> set (m_banned (fst (SweepBanned b w)))"
    using assms by (simp add: SweepBanned_eq)
  then have "(k, e) \<in> set (fst (GetBanned b w))"
    by (simp add: GetBanned_def split_beta)
  with single same kept show ?thesis
    by blast
qed

theorem expiring_now_kept_not_banned_witness:
  "([10, 0, 0], \<lparr>nCreateTime = 0, nBanUntil = 100\<rparr>)
      \<in> set (m_banned (banman0 [([10, 0, 0], \<lparr>nCreateTime = 0, nBanUntil = 100\<rparr>)])) \<and>
   nBanUntil \<lparr>nCreateTime = 0, nBanUntil = 100\<rparr> = clock (world0 100 True) (ticks (world0 100 True)) \<and>
   \<not> fst (HasBannedAddresses octets_IsSuperset [10, 0, 0, 5]
      (banman0 [([10, 0, 0], \<lparr>nCreateTime = 0, nBanUntil = 100\<rparr>)]) (world0 100 True)) \<and>
   fst (GetBanned (banman0 [([10, 0, 0], \<lparr>nCreateTime = 0, nBanUntil = 100\<rparr>)]) (world0 100 True))
     = [([10, 0, 0], \<lparr>nCreateTime = 0, nBanUntil = 100\<rparr>)]"
proof -
  have h1: "([10, 0, 0], \<lparr>nCreateTime = 0, nBanUntil = 100\<rparr>)
      \<in> set (m_banned (banman0 [([10, 0, 0], \<lparr>nCreateTime = 0, nBanUntil = 100\<rparr>)]))"
    by (simp add: banman0_def)
  have h2: "nBanUntil \<lparr>nCreateTime = 0, nBanUntil = 100\<rparr> =
      clock (world0 100 True) (ticks (world0 100 True))"
    by (simp add: world0_def)
  show ?thesis
    using h1 h2 expiring_now_kept_not_banned [OF h1 h2, of octets_IsSuperset "[10, 0, 0, 5]"]
    by (simp add: banman0_def GetBanned_def SweepBanned_eq world0_def split_beta)
qed

end
